theory Spec2Isabelle
  imports Main "HOL-Library.Word"
begin

section \<open>The memory manager of miniOS (src/core/memory/memory_manager.cpp)\<close>

text \<open>
  The allocator keeps a \<^verbatim>\<open>std::vector<MemoryBlock>\<close> in address order, a cached
  counter of free bytes and the fixed total. \<^verbatim>\<open>size_t\<close> is a 64-bit word and
  \<^verbatim>\<open>int\<close> a 32-bit word, so every sum and difference below wraps as the C++ does.

  Conventions of the embedding:
  \<^item> a member function takes the object's state and returns its return value, the lines
    it writes to \<^verbatim>\<open>std::cout\<close>/\<^verbatim>\<open>std::cerr\<close>, and the new state;
  \<^item> the result is \<open>None\<close> where an index lies outside the vector;
  \<^item> the state carries the capacity of the vector, because \<^verbatim>\<open>allocate\<close> keeps the
    reference \<^verbatim>\<open>MemoryBlock& block = memoryBlocks[blockIndex]\<close> across
    \<^verbatim>\<open>splitBlock\<close>, whose \<^verbatim>\<open>insert\<close> moves the elements to a new buffer when the
    vector is full. From then on \<^verbatim>\<open>block\<close> points into the freed buffer: what is
    written through it never reaches the vector, and what is read through it is whatever
    the freed storage holds. C++ gives such an access no meaning; the model follows the
    reads and writes as they are compiled, and takes the values read as a parameter
    (\<open>stale\<close>) of \<open>allocate\<close>, so that every theorem holds whatever they are.
\<close>

subsection \<open>Data\<close>

type_synonym size_t = "64 word"
type_synonym c_int = "32 word"

text \<open>\<^verbatim>\<open>struct MemoryBlock\<close>; the field \<^verbatim>\<open>size\<close> is \<open>sizeB\<close> here, and a parameter
  \<^verbatim>\<open>size\<close> is \<open>sz\<close>.\<close>

record MemoryBlock =
  address :: size_t
  sizeB :: size_t
  allocated :: bool
  pid :: c_int

text \<open>
  The data members of \<^verbatim>\<open>class MemoryManager\<close>; \<open>capacity\<close> is
  \<^verbatim>\<open>memoryBlocks.capacity()\<close>.
\<close>

record MemoryManager =
  memoryBlocks :: "MemoryBlock list"
  capacity :: nat
  totalMemory :: size_t
  freeMemory :: size_t
  isInitialized :: bool

text \<open>The lines the member functions print, one constructor per message text.\<close>

datatype log_line =
    NotInitialized \<comment> \<open>cerr: Memory manager not initialized\<close>
  | CannotAllocateZero \<comment> \<open>cerr: Cannot allocate 0 bytes\<close>
  | NotEnoughMemory \<comment> \<open>cerr: Not enough memory available\<close>
  | NoSuitableBlock \<comment> \<open>cerr: No suitable memory block found\<close>
  | AllocatedLine size_t size_t c_int \<comment> \<open>cout: Allocated s bytes at address a for process p\<close>
  | NoBlockAt size_t \<comment> \<open>cerr: No memory block found at address a\<close>
  | AlreadyFree size_t \<comment> \<open>cerr: Memory block at address a is already free\<close>
  | FreedLine size_t size_t \<comment> \<open>cout: Freed s bytes at address a\<close>
  | FreedForLine size_t size_t c_int \<comment> \<open>cout: Freed s bytes at address a for process p\<close>

definition DEFAULT_MEMORY_SIZE :: size_t where
  "DEFAULT_MEMORY_SIZE = 1024 * 1024"

text \<open>
  The growth of a \<^verbatim>\<open>std::vector\<close>, after the C++ library: an insertion into a vector
  with a spare slot keeps the buffer; an insertion into a full vector allocates a new
  buffer and frees the old one. The new capacity is twice the old, and 1 for an empty
  vector, as in libstdc++ and libc++ (the Microsoft library grows by half; from 0 and
  from 1 it gives 1 and 2 as well).
\<close>

definition vector_grow :: "nat \<Rightarrow> nat" where
  "vector_grow c = max 1 (2 * c)"

definition capacity_after_insert :: "nat \<Rightarrow> nat \<Rightarrow> nat" where
  "capacity_after_insert n c = (if n < c then c else vector_grow c)"

text \<open>The constructor: an empty vector, not initialized.\<close>

definition MemoryManager_new :: MemoryManager where
  "MemoryManager_new =
     \<lparr>memoryBlocks = [], capacity = 0, totalMemory = DEFAULT_MEMORY_SIZE,
      freeMemory = DEFAULT_MEMORY_SIZE, isInitialized = False\<rparr>"

definition mkBlock :: "size_t \<Rightarrow> size_t \<Rightarrow> bool \<Rightarrow> c_int \<Rightarrow> MemoryBlock" where
  "mkBlock addr blockSize alloc processId =
     \<lparr>address = addr, sizeB = blockSize, allocated = alloc, pid = processId\<rparr>"

subsection \<open>Private helpers\<close>

text \<open>
  The search loops \<^verbatim>\<open>for (size_t i = 0; i < memoryBlocks.size(); ++i) if (P) return i\<close>:
  the first index whose block satisfies the test.
\<close>

fun first_index :: "('a \<Rightarrow> bool) \<Rightarrow> 'a list \<Rightarrow> nat option" where
  "first_index P [] = None"
| "first_index P (x # xs) =
     (if P x then Some 0 else map_option Suc (first_index P xs))"

text \<open>\<^verbatim>\<open>static_cast<int>(i)\<close> of a \<^verbatim>\<open>size_t\<close> index keeps the low 32 bits.\<close>

definition static_cast_int :: "nat \<Rightarrow> c_int" where
  "static_cast_int i = ucast (of_nat i :: size_t)"

text \<open>An \<^verbatim>\<open>int\<close> used as a vector index is converted to \<^verbatim>\<open>size_t\<close> with sign extension.\<close>

definition index_of_int :: "c_int \<Rightarrow> nat" where
  "index_of_int i = unat (scast i :: size_t)"

definition findFreeBlock :: "size_t \<Rightarrow> MemoryBlock list \<Rightarrow> c_int" where
  "findFreeBlock sz bs =
     (case first_index (\<lambda>b. \<not> allocated b \<and> sz \<le> sizeB b) bs of
        Some i \<Rightarrow> static_cast_int i
      | None \<Rightarrow> - 1)"

definition findBlockByAddress :: "size_t \<Rightarrow> MemoryBlock list \<Rightarrow> c_int" where
  "findBlockByAddress a bs =
     (case first_index (\<lambda>b. address b = a) bs of
        Some i \<Rightarrow> static_cast_int i
      | None \<Rightarrow> - 1)"

text \<open>
  \<^verbatim>\<open>splitBlock(index, size)\<close>, called with an index inside the vector: shrink the block
  and insert the remainder behind it, unless the remainder is under 64 bytes. The
  insertion is where the vector may move to a new buffer.
\<close>

definition splitBlock :: "nat \<Rightarrow> size_t \<Rightarrow> MemoryManager \<Rightarrow> MemoryManager" where
  "splitBlock index sz s =
     (let bs = memoryBlocks s; block = bs ! index in
      if sizeB block - sz < 64 then s
      else
        let newAddress = address block + sz;
            newSize = sizeB block - sz;
            bs1 = bs[index := block\<lparr>sizeB := sz\<rparr>]
        in s\<lparr>memoryBlocks :=
               take (Suc index) bs1 @ [mkBlock newAddress newSize False (- 1)] @
               drop (Suc index) bs1,
             capacity := capacity_after_insert (length bs) (capacity s)\<rparr>)"

text \<open>
  One run of the \<^verbatim>\<open>for\<close> loop of \<^verbatim>\<open>mergeBlocks\<close>: the first pair of neighbours that
  are both free and touch is merged and the loop left (\<open>Some\<close> the new vector, and
  \<^verbatim>\<open>merged = true\<close>); \<open>None\<close> when the loop ends without a merge.
\<close>

fun merge_pass :: "MemoryBlock list \<Rightarrow> MemoryBlock list option" where
  "merge_pass (current # next # rest) =
     (if \<not> allocated current \<and> \<not> allocated next \<and>
         address current + sizeB current = address next
      then Some (current\<lparr>sizeB := sizeB current + sizeB next\<rparr> # rest)
      else map_option ((#) current) (merge_pass (next # rest)))"
| "merge_pass bs = None"

text \<open>The \<^verbatim>\<open>do ... while (merged)\<close> loop.\<close>

function mergeBlocks_loop :: "MemoryBlock list \<Rightarrow> MemoryBlock list" where
  "mergeBlocks_loop bs =
     (case merge_pass bs of None \<Rightarrow> bs | Some bs' \<Rightarrow> mergeBlocks_loop bs')"
  by pat_completeness auto
termination
proof (relation "measure length")
  show "wf (measure (length :: MemoryBlock list \<Rightarrow> nat))" by simp
next
  fix bs bs' :: "MemoryBlock list"
  assume "merge_pass bs = Some bs'"
  then have "length bs' < length bs"
    by (induction bs arbitrary: bs' rule: merge_pass.induct) (auto split: if_splits)
  then show "(bs', bs) \<in> measure length" by simp
qed

declare mergeBlocks_loop.simps [simp del]

text \<open>
  \<^verbatim>\<open>mergeBlocks()\<close>. On an empty vector the loop bound \<^verbatim>\<open>memoryBlocks.size() - 1\<close>
  wraps to the largest \<^verbatim>\<open>size_t\<close> and the first iteration reads outside the vector.
  \<^verbatim>\<open>erase\<close> keeps the buffer, so the capacity stays.
\<close>

definition mergeBlocks :: "MemoryBlock list \<Rightarrow> MemoryBlock list option" where
  "mergeBlocks bs = (if bs = [] then None else Some (mergeBlocks_loop bs))"

subsection \<open>Public operations\<close>

text \<open>\<^verbatim>\<open>clear()\<close> keeps the buffer; \<^verbatim>\<open>emplace_back\<close> allocates one if there is none.\<close>

definition initialize :: "MemoryManager \<Rightarrow> bool \<times> MemoryManager" where
  "initialize s =
     (True, s\<lparr>memoryBlocks := [mkBlock 0 (totalMemory s) False (- 1)],
              capacity := capacity_after_insert 0 (capacity s),
              freeMemory := totalMemory s,
              isInitialized := True\<rparr>)"

text \<open>
  \<^verbatim>\<open>allocate(size, pid)\<close>. After \<^verbatim>\<open>splitBlock\<close> the reference \<^verbatim>\<open>block\<close> is still the
  element at \<^verbatim>\<open>blockIndex\<close> if the vector has kept its buffer. If the capacity has
  changed, the vector has moved: the writes of \<^verbatim>\<open>allocated\<close> and \<^verbatim>\<open>pid\<close> go to the
  freed buffer and the vector keeps what \<^verbatim>\<open>splitBlock\<close> left, and \<^verbatim>\<open>block.size\<close> and
  \<^verbatim>\<open>block.address\<close> are read from the freed buffer: \<open>sizeB stale\<close> and
  \<open>address stale\<close>.
\<close>

definition allocate ::
  "MemoryBlock \<Rightarrow> size_t \<Rightarrow> c_int \<Rightarrow> MemoryManager \<Rightarrow>
   (size_t \<times> log_line list \<times> MemoryManager) option" where
  "allocate stale sz p s =
     (if \<not> isInitialized s then Some (0, [NotInitialized], s)
      else if sz = 0 then Some (0, [CannotAllocateZero], s)
      else if freeMemory s < sz then Some (0, [NotEnoughMemory], s)
      else
        let blockIndex = findFreeBlock sz (memoryBlocks s) in
        if blockIndex = - 1 then Some (0, [NoSuitableBlock], s)
        else
          let i = index_of_int blockIndex; bs = memoryBlocks s in
          if length bs \<le> i then None
          else
            let s1 = (if sz < sizeB (bs ! i) then splitBlock i sz s else s);
                bs1 = memoryBlocks s1
            in if capacity s1 \<noteq> capacity s then
                 Some (address stale,
                       [AllocatedLine (sizeB stale) (address stale) p],
                       s1\<lparr>freeMemory := freeMemory s - sizeB stale\<rparr>)
               else
                 let bs2 = bs1[i := (bs1 ! i)\<lparr>allocated := True, pid := p\<rparr>];
                     block = bs2 ! i
                 in Some (address block,
                          [AllocatedLine (sizeB block) (address block) p],
                          s1\<lparr>memoryBlocks := bs2,
                             freeMemory := freeMemory s - sizeB block\<rparr>))"

definition free ::
  "size_t \<Rightarrow> MemoryManager \<Rightarrow> (bool \<times> log_line list \<times> MemoryManager) option" where
  "free a s =
     (if \<not> isInitialized s then Some (False, [NotInitialized], s)
      else
        let blockIndex = findBlockByAddress a (memoryBlocks s) in
        if blockIndex = - 1 then Some (False, [NoBlockAt a], s)
        else
          let i = index_of_int blockIndex; bs = memoryBlocks s in
          if length bs \<le> i then None
          else if \<not> allocated (bs ! i) then Some (False, [AlreadyFree a], s)
          else
            let bs1 = bs[i := (bs ! i)\<lparr>allocated := False, pid := - 1\<rparr>];
                block = bs1 ! i
            in case mergeBlocks bs1 of
                 None \<Rightarrow> None
               | Some bs2 \<Rightarrow>
                   Some (True, [FreedLine (sizeB block) a],
                         s\<lparr>memoryBlocks := bs2, freeMemory := freeMemory s + sizeB block\<rparr>))"

text \<open>
  The range-for of \<^verbatim>\<open>freeProcessMemory\<close>, with its two running sums
  \<^verbatim>\<open>freedMemory\<close> and \<^verbatim>\<open>freeMemory\<close>: the blocks after the loop, the lines printed, and the
  sums.
\<close>

fun release_loop ::
  "c_int \<Rightarrow> MemoryBlock list \<Rightarrow> size_t \<Rightarrow> size_t \<Rightarrow>
   MemoryBlock list \<times> log_line list \<times> size_t \<times> size_t" where
  "release_loop p [] freed fm = ([], [], freed, fm)"
| "release_loop p (block # rest) freed fm =
     (if allocated block \<and> pid block = p then
        (case release_loop p rest (freed + sizeB block) (fm + sizeB block) of
           (rest', out, r) \<Rightarrow>
             (block\<lparr>allocated := False, pid := - 1\<rparr> # rest',
              FreedForLine (sizeB block) (address block) p # out, r))
      else
        (case release_loop p rest freed fm of
           (rest', out, r) \<Rightarrow> (block # rest', out, r)))"

definition freeProcessMemory ::
  "c_int \<Rightarrow> MemoryManager \<Rightarrow> (size_t \<times> log_line list \<times> MemoryManager) option" where
  "freeProcessMemory p s =
     (if \<not> isInitialized s then Some (0, [NotInitialized], s)
      else
        case release_loop p (memoryBlocks s) 0 (freeMemory s) of
          (bs1, out, freedMemory, fm) \<Rightarrow>
            (case mergeBlocks bs1 of
               None \<Rightarrow> None
             | Some bs2 \<Rightarrow>
                 Some (freedMemory, out, s\<lparr>memoryBlocks := bs2, freeMemory := fm\<rparr>)))"

text \<open>
  The numbers \<^verbatim>\<open>getMemoryStats\<close> prints (total, free, used, number of blocks, one row per
  block); \<open>Inl\<close> is its error text. The percentages it adds are \<^verbatim>\<open>double\<close> arithmetic
  and are left to the renderer that \<open>handleCommand\<close> takes.
\<close>

record MemoryStats =
  stat_total :: size_t
  stat_free :: size_t
  stat_used :: size_t
  stat_blocks :: nat
  stat_rows :: "MemoryBlock list"

definition getMemoryStats :: "MemoryManager \<Rightarrow> string + MemoryStats" where
  "getMemoryStats s =
     (if \<not> isInitialized s then Inl ''Error: Memory manager not initialized''
      else Inr \<lparr>stat_total = totalMemory s,
                stat_free = freeMemory s,
                stat_used = totalMemory s - freeMemory s,
                stat_blocks = length (memoryBlocks s),
                stat_rows = memoryBlocks s\<rparr>)"

subsection \<open>The command front end\<close>

text \<open>
  The C++ library functions \<^verbatim>\<open>handleCommand\<close> calls, in the "C" locale.
  \<^verbatim>\<open>std::stoull\<close> and \<^verbatim>\<open>std::stoi\<close> read the string up to its first NUL, skip white
  space, take an optional sign and then the longest run of decimal digits; they throw
  (\<open>None\<close> here) when there is no digit or the value does not fit. What follows the digits
  is ignored. \<^verbatim>\<open>std::stoull\<close> negates a value with a minus sign in the unsigned type.
\<close>

definition tolower :: "char \<Rightarrow> char" where
  "tolower c =
     (if (65::nat) \<le> of_char c \<and> of_char c \<le> (90::nat)
      then char_of (of_char c + (32::nat)) else c)"

definition isspace :: "char \<Rightarrow> bool" where
  "isspace c = (of_char c = (32::nat) \<or> ((9::nat) \<le> of_char c \<and> of_char c \<le> (13::nat)))"

definition isdigit :: "char \<Rightarrow> bool" where
  "isdigit c = ((48::nat) \<le> of_char c \<and> of_char c \<le> (57::nat))"

definition digits_value :: "string \<Rightarrow> int" where
  "digits_value ds = foldl (\<lambda>v c. 10 * v + (of_char c - 48)) 0 ds"

definition scan_number :: "string \<Rightarrow> (bool \<times> int) option" where
  "scan_number str =
     (let s1 = dropWhile isspace (takeWhile (\<lambda>c. c \<noteq> CHR 0x00) str);
          neg = (s1 \<noteq> [] \<and> hd s1 = CHR ''-'');
          s2 = (if s1 \<noteq> [] \<and> (hd s1 = CHR ''-'' \<or> hd s1 = CHR ''+'') then tl s1 else s1);
          ds = takeWhile isdigit s2
      in if ds = [] then None else Some (neg, digits_value ds))"

definition stoull :: "string \<Rightarrow> size_t option" where
  "stoull str =
     (case scan_number str of
        None \<Rightarrow> None
      | Some (neg, v) \<Rightarrow>
          if 2 ^ 64 \<le> v then None
          else Some (if neg then - of_int v else of_int v))"

definition stoi :: "string \<Rightarrow> c_int option" where
  "stoi str =
     (case scan_number str of
        None \<Rightarrow> None
      | Some (neg, v) \<Rightarrow>
          let n = (if neg then - v else v) in
          if n < - (2 ^ 31) \<or> 2 ^ 31 - 1 < n then None else Some (of_int n))"

text \<open>\<^verbatim>\<open>std::to_string\<close> of an unsigned and of a signed value.\<close>

fun to_string_nat :: "nat \<Rightarrow> string" where
  "to_string_nat n =
     (if n < 10 then [char_of (48 + n)]
      else to_string_nat (n div 10) @ [char_of (48 + n mod 10)])"

declare to_string_nat.simps [simp del]

definition to_string :: "size_t \<Rightarrow> string" where
  "to_string w = to_string_nat (unat w)"

definition to_string_int :: "c_int \<Rightarrow> string" where
  "to_string_int w =
     (if sint w < 0 then CHR ''-'' # to_string_nat (nat (- sint w))
      else to_string_nat (nat (sint w)))"

text \<open>
  \<^verbatim>\<open>handleCommand(command, args)\<close>: the reply string, the lines printed, the new state.
  The first parameter renders the numbers of \<open>getMemoryStats\<close> as its text, the second
  is \<open>allocate\<close>'s.
\<close>

definition handleCommand ::
  "(MemoryStats \<Rightarrow> string) \<Rightarrow> MemoryBlock \<Rightarrow> string \<Rightarrow> string list \<Rightarrow> MemoryManager \<Rightarrow>
   (string \<times> log_line list \<times> MemoryManager) option" where
  "handleCommand render stale command args s =
     (if \<not> isInitialized s then Some (''Error: Memory manager not initialized'', [], s)
      else
        let cmd = map tolower command in
        if cmd = ''mem-stats'' \<or> cmd = ''mem-info'' then
          Some (case getMemoryStats s of Inl e \<Rightarrow> e | Inr st \<Rightarrow> render st, [], s)
        else if cmd = ''mem-alloc'' then
          (if length args < 2 then
             Some (''Error: Missing arguments. Usage: mem-alloc <size> <pid>'', [], s)
           else
             case stoull (args ! 0) of
               None \<Rightarrow> Some (''Error: Invalid arguments'', [], s)
             | Some sz \<Rightarrow>
                 (case stoi (args ! 1) of
                    None \<Rightarrow> Some (''Error: Invalid arguments'', [], s)
                  | Some p \<Rightarrow>
                      (case allocate stale sz p s of
                         None \<Rightarrow> None
                       | Some (addr, out, s') \<Rightarrow>
                           Some (if addr \<noteq> 0
                                 then ''Memory allocated at address '' @ to_string addr
                                 else ''Failed to allocate memory'', out, s'))))
        else if cmd = ''mem-free'' then
          (if args = [] then
             Some (''Error: Missing address. Usage: mem-free <address>'', [], s)
           else
             case stoull (args ! 0) of
               None \<Rightarrow> Some (''Error: Invalid address'', [], s)
             | Some a \<Rightarrow>
                 (case free a s of
                    None \<Rightarrow> None
                  | Some (ok, out, s') \<Rightarrow>
                      Some (if ok then ''Memory freed successfully''
                            else ''Failed to free memory'', out, s')))
        else if cmd = ''mem-free-proc'' then
          (if args = [] then
             Some (''Error: Missing process ID. Usage: mem-free-proc <pid>'', [], s)
           else
             case stoi (args ! 0) of
               None \<Rightarrow> Some (''Error: Invalid process ID'', [], s)
             | Some p \<Rightarrow>
                 (case freeProcessMemory p s of
                    None \<Rightarrow> None
                  | Some (freedMemory, out, s') \<Rightarrow>
                      Some (''Freed '' @ to_string freedMemory @ '' bytes for process '' @
                            to_string_int p, out, s')))
        else Some (''Unknown memory command: '' @ command, [], s))"

subsection \<open>Sequences of operations\<close>

text \<open>
  The public operations as data; an allocation comes with what the freed buffer would
  hold if its split moved the vector.
\<close>

datatype op =
    Initialize
  | Allocate MemoryBlock size_t c_int
  | Free size_t
  | FreeProcessMemory c_int

fun step :: "op \<Rightarrow> MemoryManager \<Rightarrow> MemoryManager option" where
  "step Initialize s = Some (snd (initialize s))"
| "step (Allocate stale sz p) s = map_option (\<lambda>r. snd (snd r)) (allocate stale sz p s)"
| "step (Free a) s = map_option (\<lambda>r. snd (snd r)) (free a s)"
| "step (FreeProcessMemory p) s = map_option (\<lambda>r. snd (snd r)) (freeProcessMemory p s)"

fun run :: "op list \<Rightarrow> MemoryManager \<Rightarrow> MemoryManager option" where
  "run [] s = Some s"
| "run (x # xs) s = (case step x s of None \<Rightarrow> None | Some s' \<Rightarrow> run xs s')"

subsection \<open>The properties of the arena\<close>

text \<open>
  The blocks, in vector order, tile the range from \<open>a\<close> to \<open>c\<close>: each starts where the one
  before it ends and has a positive size. Addresses and sizes are read as numbers, so
  no sum wraps.
\<close>

fun chain :: "nat \<Rightarrow> MemoryBlock list \<Rightarrow> nat \<Rightarrow> bool" where
  "chain a [] c = (a = c)"
| "chain a (b # bs) c =
     (unat (address b) = a \<and> 0 < unat (sizeB b) \<and> chain (a + unat (sizeB b)) bs c)"

text \<open>The same, said by index, as a partition of the range from 0 to \<open>cap\<close>.\<close>

definition contiguous_partition :: "nat \<Rightarrow> MemoryBlock list \<Rightarrow> bool" where
  "contiguous_partition cap bs =
     (bs \<noteq> [] \<and> unat (address (bs ! 0)) = 0 \<and>
      (\<forall>i. Suc i < length bs \<longrightarrow>
           unat (address (bs ! Suc i)) = unat (address (bs ! i)) + unat (sizeB (bs ! i))) \<and>
      unat (address (last bs)) + unat (sizeB (last bs)) = cap \<and>
      (\<forall>i < length bs. 0 < unat (sizeB (bs ! i))))"

text \<open>The sum of the sizes of the free blocks, as a number.\<close>

definition free_total :: "MemoryBlock list \<Rightarrow> nat" where
  "free_total bs = sum_list (map (\<lambda>b. unat (sizeB b)) (filter (\<lambda>b. \<not> allocated b) bs))"

text \<open>
  What every state that the operations reach satisfies: the arena is initialized, its
  blocks tile it, and they fit the vector's buffer. The capacity of the arena is below
  \<open>2^31\<close> (the constructor's is \<open>2^20\<close>), so that the number of blocks fits the
  \<^verbatim>\<open>int\<close> the search functions return. Nothing is said of the flags or of the counter.
\<close>

definition tiled :: "MemoryManager \<Rightarrow> bool" where
  "tiled s =
     (isInitialized s \<and> 0 < unat (totalMemory s) \<and> unat (totalMemory s) < 2 ^ 31 \<and>
      memoryBlocks s \<noteq> [] \<and>
      chain 0 (memoryBlocks s) (unat (totalMemory s)) \<and>
      length (memoryBlocks s) \<le> capacity s)"

text \<open>What the loop of \<^verbatim>\<open>freeProcessMemory\<close> makes of one block.\<close>

definition released :: "c_int \<Rightarrow> MemoryBlock \<Rightarrow> MemoryBlock" where
  "released p b = (if allocated b \<and> pid b = p then b\<lparr>allocated := False, pid := - 1\<rparr> else b)"

text \<open>
  The result of \<open>allocate\<close> when it takes the free block \<open>b\<close> that stands between \<open>pre\<close>
  and \<open>post\<close>: without a split, with a split in a vector that has a spare slot, and with
  a split that moves the vector.
\<close>

definition after_allocate ::
  "MemoryBlock \<Rightarrow> size_t \<Rightarrow> c_int \<Rightarrow> MemoryBlock list \<Rightarrow> MemoryBlock \<Rightarrow> MemoryBlock list \<Rightarrow>
   MemoryManager \<Rightarrow> size_t \<times> log_line list \<times> MemoryManager" where
  "after_allocate stale sz p pre b post s =
     (if sizeB b - sz < 64 then
        (address b, [AllocatedLine (sizeB b) (address b) p],
         s\<lparr>memoryBlocks := pre @ b\<lparr>allocated := True, pid := p\<rparr> # post,
           freeMemory := freeMemory s - sizeB b\<rparr>)
      else if length (memoryBlocks s) < capacity s then
        (address b, [AllocatedLine sz (address b) p],
         s\<lparr>memoryBlocks :=
             pre @ b\<lparr>sizeB := sz, allocated := True, pid := p\<rparr> #
             mkBlock (address b + sz) (sizeB b - sz) False (- 1) # post,
           freeMemory := freeMemory s - sz\<rparr>)
      else
        (address stale, [AllocatedLine (sizeB stale) (address stale) p],
         s\<lparr>memoryBlocks :=
             pre @ b\<lparr>sizeB := sz\<rparr> #
             mkBlock (address b + sz) (sizeB b - sz) False (- 1) # post,
           capacity := vector_grow (capacity s),
           freeMemory := freeMemory s - sizeB stale\<rparr>))"

subsection \<open>Reachable states\<close>

text \<open>
  The arena as the kernel sets it up (\<^verbatim>\<open>std::make_unique<MemoryManager>()\<close>, then
  \<^verbatim>\<open>initialize()\<close>): one free block of \<open>DEFAULT_MEMORY_SIZE\<close> bytes in a vector of
  capacity 1.
\<close>

definition fresh_arena :: MemoryManager where
  "fresh_arena = snd (initialize MemoryManager_new)"

text \<open>\<open>reaches ops s\<close>: the operations \<open>ops\<close>, run on the fresh arena, end in the state \<open>s\<close>.\<close>

definition reaches :: "op list \<Rightarrow> MemoryManager \<Rightarrow> bool" where
  "reaches ops s = (run ops fresh_arena = Some s)"

section \<open>Auxiliary facts\<close>

subsection \<open>The casts between indices and int\<close>

lemma static_cast_int_small:
  assumes "i < 2 ^ 31"
  shows "static_cast_int i = (of_nat i :: c_int)"
proof -
  have "uint (of_nat i :: size_t) = int i"
    using assms by (simp add: unsigned_of_nat take_bit_nat_eq_self)
  then show ?thesis
    by (simp add: static_cast_int_def ucast_eq)
qed

lemma index_of_static_cast:
  assumes "i < 2 ^ 31"
  shows "index_of_int (static_cast_int i) = i"
proof -
  have "sint (of_nat i :: c_int) = int i"
    using assms by (simp add: signed_of_nat signed_take_bit_int_eq_self)
  then have "(scast (of_nat i :: c_int) :: size_t) = of_nat i"
    by (simp add: scast_eq)
  moreover have "unat (of_nat i :: size_t) = i"
    using assms by (simp add: unat_of_nat)
  ultimately show ?thesis
    using assms by (simp add: index_of_int_def static_cast_int_small)
qed

lemma static_cast_not_minus_one:
  assumes "i < 2 ^ 31"
  shows "static_cast_int i \<noteq> - 1"
proof
  assume "static_cast_int i = - 1"
  then have "unat (of_nat i :: c_int) = unat (- 1 :: c_int)"
    using assms by (simp add: static_cast_int_small)
  moreover have "unat (of_nat i :: c_int) = i"
    using assms by (simp add: unat_of_nat)
  ultimately show False
    using assms by (simp add: unsigned_minus_1_eq_mask mask_eq_exp_minus_1)
qed

subsection \<open>The search loop\<close>

lemma first_index_None_iff: "first_index P xs = None \<longleftrightarrow> (\<forall>x \<in> set xs. \<not> P x)"
  by (induction xs) auto

lemma first_index_decomp:
  "first_index P xs = Some i \<Longrightarrow>
   \<exists>pre b post. xs = pre @ b # post \<and> length pre = i \<and> P b \<and> (\<forall>x \<in> set pre. \<not> P x)"
proof (induction xs arbitrary: i)
  case Nil
  then show ?case by simp
next
  case (Cons x xs)
  show ?case
  proof (cases "P x")
    case True
    with Cons.prems have "i = 0" by simp
    with True show ?thesis by (intro exI [of _ "[]"]) auto
  next
    case False
    with Cons.prems obtain j where j: "first_index P xs = Some j" "i = Suc j"
      by auto
    from Cons.IH [OF j(1)] obtain pre b post where
      "xs = pre @ b # post" "length pre = j" "P b" "\<forall>x \<in> set pre. \<not> P x"
      by blast
    with False j(2) show ?thesis
      by (intro exI [of _ "x # pre"] exI [of _ b] exI [of _ post]) auto
  qed
qed

subsection \<open>Tilings\<close>

lemma chain_append:
  "chain a (xs @ ys) c \<longleftrightarrow> (\<exists>m. chain a xs m \<and> chain m ys c)"
  by (induction xs arbitrary: a) auto

lemma chain_le: "chain a bs c \<Longrightarrow> a \<le> c"
proof (induction bs arbitrary: a)
  case Nil
  then show ?case by simp
next
  case (Cons b bs)
  from Cons.prems have "chain (a + unat (sizeB b)) bs c" by simp
  from Cons.IH [OF this] show ?case by simp
qed

lemma chain_size_pos: "chain a bs c \<Longrightarrow> x \<in> set bs \<Longrightarrow> 0 < unat (sizeB x)"
  by (induction bs arbitrary: a) auto

lemma chain_length: "chain a bs c \<Longrightarrow> a + length bs \<le> c"
  by (induction bs arbitrary: a) fastforce+

lemma chain_address_ge: "chain a bs c \<Longrightarrow> x \<in> set bs \<Longrightarrow> a \<le> unat (address x) \<and> unat (address x) + unat (sizeB x) \<le> c"
proof (induction bs arbitrary: a)
  case Nil
  then show ?case by simp
next
  case (Cons b bs)
  show ?case
  proof (cases "x = b")
    case True
    with Cons.prems chain_le [of "a + unat (sizeB b)" bs c] show ?thesis by auto
  next
    case False
    with Cons.prems Cons.IH [of "a + unat (sizeB b)"] show ?thesis by auto
  qed
qed

lemma chain_pre_below:
  assumes "chain a (pre @ b # post) c" "x \<in> set pre"
  shows "unat (address x) < unat (address b)"
proof -
  from assms(1) obtain m where m: "chain a pre m" "chain m (b # post) c"
    by (auto simp: chain_append)
  from chain_address_ge [OF m(1) assms(2)] chain_size_pos [OF m(1) assms(2)] m(2)
  show ?thesis by auto
qed

lemma chain_post_above:
  assumes "chain a (pre @ b # post) c" "x \<in> set post"
  shows "unat (address b) < unat (address x)"
proof -
  from assms(1) obtain m where m: "chain m (b # post) c"
    by (auto simp: chain_append)
  then have "chain (m + unat (sizeB b)) post c" "unat (address b) = m" "0 < unat (sizeB b)"
    by auto
  with chain_address_ge [of "m + unat (sizeB b)" post c x] assms(2) show ?thesis by auto
qed

lemma chain_sorted: "chain a bs c \<Longrightarrow> sorted_wrt (<) (map address bs)"
proof (induction bs arbitrary: a)
  case Nil
  then show ?case by simp
next
  case (Cons b bs)
  have "\<forall>x \<in> set bs. address b < address x"
  proof
    fix x assume "x \<in> set bs"
    with chain_post_above [of a "[]" b bs c x] Cons.prems
    show "address b < address x" by (simp add: word_less_nat_alt)
  qed
  with Cons show ?case by auto
qed

lemma chain_nth:
  "chain a bs c \<Longrightarrow> Suc i < length bs \<Longrightarrow>
   unat (address (bs ! Suc i)) = unat (address (bs ! i)) + unat (sizeB (bs ! i))"
proof (induction bs arbitrary: a i)
  case Nil
  then show ?case by simp
next
  case (Cons b bs)
  show ?case
  proof (cases i)
    case 0
    with Cons.prems show ?thesis by (cases bs) auto
  next
    case (Suc j)
    with Cons.prems Cons.IH [of "a + unat (sizeB b)" j] show ?thesis by auto
  qed
qed

lemma chain_last:
  "chain a bs c \<Longrightarrow> bs \<noteq> [] \<Longrightarrow> unat (address (last bs)) + unat (sizeB (last bs)) = c"
  by (induction bs arbitrary: a) (auto split: if_splits)

lemma chain_contiguous_partition:
  assumes "chain 0 bs c" "bs \<noteq> []"
  shows "contiguous_partition c bs"
proof -
  from assms have "unat (address (bs ! 0)) = 0" by (cases bs) auto
  moreover have "\<forall>i < length bs. 0 < unat (sizeB (bs ! i))"
    using chain_size_pos [OF assms(1)] by simp
  ultimately show ?thesis
    using assms chain_nth [OF assms(1)] chain_last [OF assms]
    by (simp add: contiguous_partition_def)
qed

subsection \<open>Coalescing\<close>

lemma unat_add_in_chain:
  "unat x + unat y \<le> c \<Longrightarrow> c < 2 ^ 64 \<Longrightarrow> unat (x + y) = unat x + unat y"
  for x y :: size_t
  by (rule unat_add_lem [THEN iffD1]) simp

lemma merge_pass_chain:
  "merge_pass bs = Some bs' \<Longrightarrow> chain a bs c \<Longrightarrow> c < 2 ^ 64 \<Longrightarrow> chain a bs' c"
proof (induction bs arbitrary: bs' a rule: merge_pass.induct)
  case (1 current nxt rest)
  show ?case
  proof (cases "\<not> allocated current \<and> \<not> allocated nxt \<and>
                address current + sizeB current = address nxt")
    case True
    from "1.prems"(2) have "chain (a + unat (sizeB current) + unat (sizeB nxt)) rest c"
      by simp
    from chain_le [OF this] "1.prems"(3)
    have "unat (sizeB current + sizeB nxt) = unat (sizeB current) + unat (sizeB nxt)"
      by (intro unat_add_in_chain [of _ _ c]) auto
    with True "1.prems" show ?thesis by (auto simp: add.assoc)
  next
    case False
    with "1.prems"(1) obtain r where r: "merge_pass (nxt # rest) = Some r" "bs' = current # r"
      by auto
    from "1.prems"(2) have "chain (a + unat (sizeB current)) (nxt # rest) c" by simp
    from "1.IH" [OF False r(1) this "1.prems"(3)] r(2) "1.prems"(2) show ?thesis by simp
  qed
qed simp_all

lemma merge_pass_set:
  "merge_pass bs = Some bs' \<Longrightarrow> x \<in> set bs' \<Longrightarrow>
   (x \<in> set bs \<or> (\<not> allocated x \<and> (\<exists>y \<in> set bs. \<not> allocated y \<and> pid x = pid y \<and> address x = address y)))"
  by (induction bs arbitrary: bs' rule: merge_pass.induct) (auto split: if_splits)

lemma merge_pass_not_empty: "merge_pass bs = Some bs' \<Longrightarrow> bs' \<noteq> []"
  by (induction bs arbitrary: bs' rule: merge_pass.induct) (auto split: if_splits)

lemma mergeBlocks_loop_not_empty: "bs \<noteq> [] \<Longrightarrow> mergeBlocks_loop bs \<noteq> []"
proof (induction bs rule: mergeBlocks_loop.induct)
  case (1 bs)
  show ?case
  proof (cases "merge_pass bs")
    case None
    with "1.prems" show ?thesis by (simp add: mergeBlocks_loop.simps [of bs])
  next
    case (Some bs')
    from "1.IH" [OF Some merge_pass_not_empty [OF Some]] Some
    show ?thesis by (simp add: mergeBlocks_loop.simps [of bs])
  qed
qed

lemma mergeBlocks_loop_set:
  "x \<in> set (mergeBlocks_loop bs) \<Longrightarrow>
   (x \<in> set bs \<or> (\<not> allocated x \<and> (\<exists>y \<in> set bs. \<not> allocated y \<and> pid x = pid y \<and> address x = address y)))"
proof (induction bs rule: mergeBlocks_loop.induct)
  case (1 bs)
  show ?case
  proof (cases "merge_pass bs")
    case None
    with "1.prems" show ?thesis by (simp add: mergeBlocks_loop.simps [of bs])
  next
    case (Some bs')
    with "1.prems" have "x \<in> set (mergeBlocks_loop bs')"
      by (simp add: mergeBlocks_loop.simps [of bs])
    from "1.IH" [OF Some this] merge_pass_set [OF Some] show ?thesis
      by metis
  qed
qed

lemma first_index_bounds:
  assumes "first_index P bs = Some i" "length bs < 2 ^ 31"
  shows "i < length bs \<and> static_cast_int i \<noteq> - 1 \<and> index_of_int (static_cast_int i) = i"
proof -
  from first_index_decomp [OF assms(1)] have "i < length bs" by auto
  with assms(2) have "i < 2 ^ 31" by simp
  with \<open>i < length bs\<close> show ?thesis
    by (simp add: index_of_static_cast static_cast_not_minus_one)
qed

lemma release_loop_blocks: "fst (release_loop p bs freed fm) = map (released p) bs"
  by (induction bs arbitrary: freed fm)
    (auto simp: released_def split: prod.splits, (metis fst_conv)+)

lemma chain_released: "chain a (map (released p) bs) c = chain a bs c"
  by (induction bs arbitrary: a) (auto simp: released_def)

lemma vector_grow_gt: "c < vector_grow c"
  by (simp add: vector_grow_def max_def)

lemma merge_pass_shorter: "merge_pass bs = Some bs' \<Longrightarrow> length bs' < length bs"
  by (induction bs arbitrary: bs' rule: merge_pass.induct) (auto split: if_splits)

lemma mergeBlocks_loop_chain:
  "chain a bs c \<Longrightarrow> c < 2 ^ 64 \<Longrightarrow> chain a (mergeBlocks_loop bs) c"
proof (induction bs rule: mergeBlocks_loop.induct)
  case (1 bs)
  show ?case
  proof (cases "merge_pass bs")
    case None
    with "1.prems" show ?thesis by (simp add: mergeBlocks_loop.simps [of bs])
  next
    case (Some bs')
    from "1.IH" [OF Some merge_pass_chain [OF Some "1.prems"] "1.prems"(2)] Some
    show ?thesis by (simp add: mergeBlocks_loop.simps [of bs])
  qed
qed

lemma mergeBlocks_loop_length: "length (mergeBlocks_loop bs) \<le> length bs"
proof (induction bs rule: mergeBlocks_loop.induct)
  case (1 bs)
  show ?case
  proof (cases "merge_pass bs")
    case None
    then show ?thesis by (simp add: mergeBlocks_loop.simps [of bs])
  next
    case (Some bs')
    from "1.IH" [OF Some] merge_pass_shorter [OF Some] Some
    show ?thesis by (simp add: mergeBlocks_loop.simps [of bs])
  qed
qed

subsection \<open>Allocation\<close>

lemma tiled_length: "tiled s \<Longrightarrow> length (memoryBlocks s) < 2 ^ 31"
  using chain_length [of 0 "memoryBlocks s" "unat (totalMemory s)"]
  by (simp add: tiled_def)

lemma allocate_at:
  assumes "isInitialized s" "length (memoryBlocks s) < 2 ^ 31"
    and "sz \<noteq> 0" "\<not> freeMemory s < sz"
    and "memoryBlocks s = pre @ b # post"
    and "first_index (\<lambda>b. \<not> allocated b \<and> sz \<le> sizeB b) (memoryBlocks s) = Some (length pre)"
    and "sz \<le> sizeB b"
  shows "allocate stale sz p s = Some (after_allocate stale sz p pre b post s)"
proof -
  from first_index_bounds [OF assms(6,2)]
  have idx: "findFreeBlock sz (memoryBlocks s) \<noteq> - 1"
    "index_of_int (findFreeBlock sz (memoryBlocks s)) = length pre"
    by (simp_all add: findFreeBlock_def assms(6))
  have zero: "sizeB b = sz \<Longrightarrow> sizeB b - sz < 64" by simp
  from assms(7) have lt: "sz < sizeB b \<longleftrightarrow> sizeB b \<noteq> sz" by auto
  have grow: "vector_grow (capacity s) \<noteq> capacity s"
    using vector_grow_gt [of "capacity s"] by simp
  show ?thesis
    using assms(1,3,4) idx zero grow
    by (simp add: allocate_def Let_def assms(5) splitBlock_def after_allocate_def lt nth_append
        capacity_after_insert_def)
qed

lemma chain_flags:
  "chain a (pre @ b # post) c \<Longrightarrow> address b' = address b \<Longrightarrow> sizeB b' = sizeB b \<Longrightarrow>
   chain a (pre @ b' # post) c"
  by (auto simp: chain_append)

lemma chain_split:
  assumes "chain a (pre @ b # post) c" "c < 2 ^ 64" "sz \<le> sizeB b" "sz \<noteq> 0"
    and "\<not> sizeB b - sz < 64"
    and "address b' = address b" "sizeB b' = sz"
    and "address r = address b + sz" "sizeB r = sizeB b - sz"
  shows "chain a (pre @ b' # r # post) c"
proof -
  from assms(1) obtain m where m: "chain a pre m" "unat (address b) = m" "0 < unat (sizeB b)"
    "chain (m + unat (sizeB b)) post c"
    by (auto simp: chain_append)
  from assms(3) have le: "unat sz \<le> unat (sizeB b)" by (simp add: word_le_nat_alt)
  from assms(3) have sub: "unat (sizeB b - sz) = unat (sizeB b) - unat sz" by (rule unat_sub)
  from assms(5) have "sizeB b - sz \<noteq> 0" by auto
  then have rem_pos: "0 < unat (sizeB b - sz)" by (simp add: unat_gt_0)
  from assms(4) have sz_pos: "0 < unat sz" by (simp add: unat_gt_0)
  from chain_le [OF m(4)] assms(2) le m(2)
  have add: "unat (address b + sz) = unat (address b) + unat sz"
    by (intro unat_add_in_chain [of _ _ c]) auto
  from le sub have eq: "m + unat sz + unat (sizeB b - sz) = m + unat (sizeB b)" by simp
  have "chain (m + unat sz + unat (sizeB b - sz)) post c"
    by (subst eq) (rule m(4))
  with m(1,2) rem_pos sz_pos add assms(6-) show ?thesis
    by (auto simp: chain_append)
qed

lemma after_allocate_tiled:
  assumes "tiled s" "memoryBlocks s = pre @ b # post" "sz \<le> sizeB b" "sz \<noteq> 0"
  shows "tiled (snd (snd (after_allocate stale sz p pre b post s)))"
    and "totalMemory (snd (snd (after_allocate stale sz p pre b post s))) = totalMemory s"
proof -
  let ?c = "unat (totalMemory s)"
  from assms(1,2) have inv: "isInitialized s" "0 < ?c" "?c < 2 ^ 31"
    "chain 0 (pre @ b # post) ?c" "length (pre @ b # post) \<le> capacity s"
    by (simp_all add: tiled_def)
  from inv(3) have c64: "?c < 2 ^ 64" by simp
  show "totalMemory (snd (snd (after_allocate stale sz p pre b post s))) = totalMemory s"
    by (simp add: after_allocate_def)
  show "tiled (snd (snd (after_allocate stale sz p pre b post s)))"
  proof (cases "sizeB b - sz < 64")
    case True
    have "chain 0 (pre @ b\<lparr>allocated := True, pid := p\<rparr> # post) ?c"
      by (rule chain_flags [OF inv(4)]) simp_all
    with True inv show ?thesis by (simp add: after_allocate_def tiled_def)
  next
    case False
    let ?r = "mkBlock (address b + sz) (sizeB b - sz) False (- 1)"
    have c1: "chain 0 (pre @ b\<lparr>sizeB := sz, allocated := True, pid := p\<rparr> # ?r # post) ?c"
      by (rule chain_split [OF inv(4) c64 assms(3,4) False]) (simp_all add: mkBlock_def)
    have c2: "chain 0 (pre @ b\<lparr>sizeB := sz\<rparr> # ?r # post) ?c"
      by (rule chain_split [OF inv(4) c64 assms(3,4) False]) (simp_all add: mkBlock_def)
    from False c1 c2 inv assms(2) vector_grow_gt [of "capacity s"] show ?thesis
      by (auto simp: after_allocate_def tiled_def)
  qed
qed

lemma allocate_cases:
  assumes "tiled s"
  shows "(sz = 0 \<and> allocate stale sz p s = Some (0, [CannotAllocateZero], s)) \<or>
         (sz \<noteq> 0 \<and> freeMemory s < sz \<and>
          allocate stale sz p s = Some (0, [NotEnoughMemory], s)) \<or>
         (sz \<noteq> 0 \<and> \<not> freeMemory s < sz \<and>
          (\<forall>x \<in> set (memoryBlocks s). \<not> (\<not> allocated x \<and> sz \<le> sizeB x)) \<and>
          allocate stale sz p s = Some (0, [NoSuitableBlock], s)) \<or>
         (sz \<noteq> 0 \<and> \<not> freeMemory s < sz \<and>
          (\<exists>pre b post. memoryBlocks s = pre @ b # post \<and> \<not> allocated b \<and> sz \<le> sizeB b \<and>
             (\<forall>x \<in> set pre. \<not> (\<not> allocated x \<and> sz \<le> sizeB x)) \<and>
             allocate stale sz p s = Some (after_allocate stale sz p pre b post s)))"
proof -
  let ?P = "\<lambda>b. \<not> allocated b \<and> sz \<le> sizeB b"
  from assms have init: "isInitialized s" by (simp add: tiled_def)
  note len = tiled_length [OF assms]
  consider "sz = 0" | "sz \<noteq> 0" "freeMemory s < sz"
    | "sz \<noteq> 0" "\<not> freeMemory s < sz" "first_index ?P (memoryBlocks s) = None"
    | i where "sz \<noteq> 0" "\<not> freeMemory s < sz" "first_index ?P (memoryBlocks s) = Some i"
    by (cases "first_index ?P (memoryBlocks s)") auto
  then show ?thesis
  proof cases
    case 1
    with init show ?thesis by (simp add: allocate_def)
  next
    case 2
    with init show ?thesis by (simp add: allocate_def)
  next
    case 3
    from 3(3) have "\<forall>x \<in> set (memoryBlocks s). \<not> ?P x"
      by (simp add: first_index_None_iff)
    moreover from 3 init have "allocate stale sz p s = Some (0, [NoSuitableBlock], s)"
      by (simp add: allocate_def findFreeBlock_def)
    ultimately show ?thesis using 3(1,2) by blast
  next
    case 4
    from first_index_decomp [OF 4(3)] obtain pre b post where
      d: "memoryBlocks s = pre @ b # post" "length pre = i" "?P b" "\<forall>x \<in> set pre. \<not> ?P x"
      by blast
    from 4(3) d(2) have "first_index ?P (memoryBlocks s) = Some (length pre)" by simp
    from allocate_at [OF init len 4(1,2) d(1) this, of stale p] d(3)
    have "allocate stale sz p s = Some (after_allocate stale sz p pre b post s)"
      by simp
    with d 4(1,2) show ?thesis by blast
  qed
qed

lemma allocate_tiled:
  assumes "tiled s"
  shows "\<exists>res. allocate stale sz p s = Some res \<and> tiled (snd (snd res)) \<and>
           totalMemory (snd (snd res)) = totalMemory s"
proof -
  from allocate_cases [OF assms, of sz stale p]
  consider r out where "allocate stale sz p s = Some (r, out, s)"
    | pre b post where "memoryBlocks s = pre @ b # post" "sz \<le> sizeB b" "sz \<noteq> 0"
      "allocate stale sz p s = Some (after_allocate stale sz p pre b post s)"
    by blast
  then show ?thesis
  proof cases
    case 1
    with assms show ?thesis by simp
  next
    case 2
    from after_allocate_tiled [OF assms 2(1,2,3), of stale p] 2(4) show ?thesis by simp
  qed
qed

subsection \<open>Freeing\<close>

lemma free_cases:
  assumes "tiled s"
  shows "((\<forall>x \<in> set (memoryBlocks s). address x \<noteq> a) \<and>
          free a s = Some (False, [NoBlockAt a], s)) \<or>
         (\<exists>pre b post. memoryBlocks s = pre @ b # post \<and> address b = a \<and> \<not> allocated b \<and>
            free a s = Some (False, [AlreadyFree a], s)) \<or>
         (\<exists>pre b post. memoryBlocks s = pre @ b # post \<and> address b = a \<and> allocated b \<and>
            free a s =
              Some (True, [FreedLine (sizeB b) a],
                    s\<lparr>memoryBlocks :=
                        mergeBlocks_loop (pre @ b\<lparr>allocated := False, pid := - 1\<rparr> # post),
                      freeMemory := freeMemory s + sizeB b\<rparr>))"
proof (cases "first_index (\<lambda>b. address b = a) (memoryBlocks s)")
  case None
  from assms have "isInitialized s" by (simp add: tiled_def)
  with None have "free a s = Some (False, [NoBlockAt a], s)"
    by (simp add: free_def findBlockByAddress_def)
  moreover from None have "\<forall>x \<in> set (memoryBlocks s). address x \<noteq> a"
    by (simp add: first_index_None_iff)
  ultimately show ?thesis by blast
next
  case (Some i)
  from assms have init: "isInitialized s" by (simp add: tiled_def)
  from first_index_decomp [OF Some] obtain pre b post where
    d: "memoryBlocks s = pre @ b # post" "length pre = i" "address b = a"
    by blast
  from first_index_bounds [OF Some tiled_length [OF assms]] d(2)
  have idx: "findBlockByAddress a (memoryBlocks s) \<noteq> - 1"
    "index_of_int (findBlockByAddress a (memoryBlocks s)) = length pre"
    by (simp_all add: findBlockByAddress_def Some)
  show ?thesis
  proof (cases "allocated b")
    case False
    with init idx have "free a s = Some (False, [AlreadyFree a], s)"
      by (simp add: free_def Let_def d(1))
    with d False show ?thesis by blast
  next
    case True
    with init idx have "free a s =
              Some (True, [FreedLine (sizeB b) a],
                    s\<lparr>memoryBlocks :=
                        mergeBlocks_loop (pre @ b\<lparr>allocated := False, pid := - 1\<rparr> # post),
                      freeMemory := freeMemory s + sizeB b\<rparr>)"
      by (simp add: free_def Let_def d(1) mergeBlocks_def)
    with d True show ?thesis by blast
  qed
qed

text \<open>Coalescing a tiling gives a tiling, whatever the counter is set to.\<close>

lemma merged_tiled:
  assumes "tiled s" "chain 0 bs (unat (totalMemory s))" "bs \<noteq> []"
    and "length bs \<le> length (memoryBlocks s)"
  shows "tiled (s\<lparr>memoryBlocks := mergeBlocks_loop bs, freeMemory := fm\<rparr>)"
proof -
  from assms(1) have inv: "isInitialized s" "0 < unat (totalMemory s)"
    "unat (totalMemory s) < 2 ^ 31" "length (memoryBlocks s) \<le> capacity s"
    by (simp_all add: tiled_def)
  from inv(3) have "unat (totalMemory s) < 2 ^ 64" by simp
  from mergeBlocks_loop_chain [OF assms(2) this] mergeBlocks_loop_not_empty [OF assms(3)]
    mergeBlocks_loop_length [of bs] assms(4) inv
  show ?thesis by (simp add: tiled_def)
qed

lemma free_tiled:
  assumes "tiled s"
  shows "\<exists>res. free a s = Some res \<and> tiled (snd (snd res)) \<and>
           totalMemory (snd (snd res)) = totalMemory s"
proof -
  from free_cases [OF assms, of a]
  consider r out where "free a s = Some (r, out, s)"
    | pre b post where "memoryBlocks s = pre @ b # post"
        "free a s =
              Some (True, [FreedLine (sizeB b) a],
                    s\<lparr>memoryBlocks :=
                        mergeBlocks_loop (pre @ b\<lparr>allocated := False, pid := - 1\<rparr> # post),
                      freeMemory := freeMemory s + sizeB b\<rparr>)"
    by blast
  then show ?thesis
  proof cases
    case 1
    with assms show ?thesis by auto
  next
    case 2
    let ?bs1 = "pre @ b\<lparr>allocated := False, pid := - 1\<rparr> # post"
    from assms 2(1) have "chain 0 (pre @ b # post) (unat (totalMemory s))"
      by (simp add: tiled_def)
    then have ch: "chain 0 ?bs1 (unat (totalMemory s))"
      by (rule chain_flags) simp_all
    have "tiled (s\<lparr>memoryBlocks := mergeBlocks_loop ?bs1,
                    freeMemory := freeMemory s + sizeB b\<rparr>)"
      by (rule merged_tiled [OF assms ch]) (simp_all add: 2(1))
    with 2(2) show ?thesis by simp
  qed
qed

lemma freeProcessMemory_tiled:
  assumes "tiled s"
  shows "\<exists>res. freeProcessMemory p s = Some res \<and> tiled (snd (snd res)) \<and>
           totalMemory (snd (snd res)) = totalMemory s"
proof -
  let ?bs = "memoryBlocks s"
  let ?bs1 = "map (released p) ?bs"
  from assms have inv: "chain 0 ?bs (unat (totalMemory s))" "?bs \<noteq> []" "isInitialized s"
    by (simp_all add: tiled_def)
  obtain bs' out freed' fm' where
    r: "release_loop p ?bs 0 (freeMemory s) = (bs', out, freed', fm')"
    by (cases "release_loop p ?bs 0 (freeMemory s)") auto
  from release_loop_blocks [of p ?bs 0 "freeMemory s"] r have bs': "bs' = ?bs1" by simp
  from inv(1) have ch: "chain 0 ?bs1 (unat (totalMemory s))" by (simp add: chain_released)
  have "tiled (s\<lparr>memoryBlocks := mergeBlocks_loop ?bs1, freeMemory := fm'\<rparr>)"
    by (rule merged_tiled [OF assms ch]) (simp_all add: inv(2))
  moreover from inv(2,3) r bs'
  have "freeProcessMemory p s =
        Some (freed', out, s\<lparr>memoryBlocks := mergeBlocks_loop ?bs1, freeMemory := fm'\<rparr>)"
    by (simp add: freeProcessMemory_def mergeBlocks_def)
  ultimately show ?thesis by simp
qed

subsection \<open>Reachable states\<close>

lemma fresh_arena_eq:
  "fresh_arena =
   \<lparr>memoryBlocks = [mkBlock 0 1048576 False (- 1)], capacity = 1, totalMemory = 1048576,
    freeMemory = 1048576, isInitialized = True\<rparr>"
  by (simp add: fresh_arena_def initialize_def MemoryManager_new_def DEFAULT_MEMORY_SIZE_def
      capacity_after_insert_def vector_grow_def)

lemma initialize_tiled:
  assumes "0 < unat (totalMemory s)" "unat (totalMemory s) < 2 ^ 31"
  shows "tiled (snd (initialize s))" "totalMemory (snd (initialize s)) = totalMemory s"
  using assms vector_grow_gt [of "capacity s"]
  by (auto simp: initialize_def tiled_def mkBlock_def capacity_after_insert_def)

lemma step_tiled:
  assumes "tiled s"
  shows "\<exists>s'. step x s = Some s' \<and> tiled s' \<and> totalMemory s' = totalMemory s"
proof (cases x)
  case Initialize
  from assms have "0 < unat (totalMemory s)" "unat (totalMemory s) < 2 ^ 31"
    by (simp_all add: tiled_def)
  from initialize_tiled [OF this] Initialize show ?thesis by simp
next
  case (Allocate stale sz p)
  with allocate_tiled [OF assms, of stale sz p] show ?thesis by auto
next
  case (Free a)
  with free_tiled [OF assms, of a] show ?thesis by auto
next
  case (FreeProcessMemory p)
  with freeProcessMemory_tiled [OF assms, of p] show ?thesis by auto
qed

lemma run_tiled:
  "tiled s \<Longrightarrow> \<exists>s'. run xs s = Some s' \<and> tiled s' \<and> totalMemory s' = totalMemory s"
proof (induction xs arbitrary: s)
  case Nil
  then show ?case by simp
next
  case (Cons x xs)
  from step_tiled [OF Cons.prems, of x] obtain s1 where
    s1: "step x s = Some s1" "tiled s1" "totalMemory s1 = totalMemory s"
    by blast
  from Cons.IH [OF s1(2)] s1(1,3) show ?case by auto
qed

lemma fresh_arena_tiled: "tiled fresh_arena" "totalMemory fresh_arena = DEFAULT_MEMORY_SIZE"
  by (simp_all add: fresh_arena_eq tiled_def mkBlock_def DEFAULT_MEMORY_SIZE_def)

lemma reaches_tiled:
  assumes "reaches ops s"
  shows "tiled s" "totalMemory s = DEFAULT_MEMORY_SIZE"
  using run_tiled [OF fresh_arena_tiled(1), of ops] assms fresh_arena_tiled(2)
  by (auto simp: reaches_def)

lemma reaches_total: "\<exists>s. reaches ops s"
  using run_tiled [OF fresh_arena_tiled(1), of ops] by (auto simp: reaches_def)

text \<open>The first allocation of the fresh arena, for a request that splits its one block.\<close>

lemma first_allocate:
  "allocate stale 100 1 fresh_arena =
   Some (address stale, [AllocatedLine (sizeB stale) (address stale) 1],
         \<lparr>memoryBlocks = [mkBlock 0 100 False (- 1), mkBlock 100 1048476 False (- 1)],
          capacity = 2, totalMemory = 1048576, freeMemory = 1048576 - sizeB stale,
          isInitialized = True\<rparr>)"
  by (simp add: fresh_arena_eq allocate_def findFreeBlock_def static_cast_int_def
      index_of_int_def splitBlock_def capacity_after_insert_def vector_grow_def mkBlock_def
      Let_def)

lemma free_success_form:
  assumes "tiled s" "free a s = Some (True, out, s')"
  shows "\<exists>pre b post. memoryBlocks s = pre @ b # post \<and> address b = a \<and> allocated b \<and>
           out = [FreedLine (sizeB b) a] \<and>
           s' = s\<lparr>memoryBlocks :=
                     mergeBlocks_loop (pre @ b\<lparr>allocated := False, pid := - 1\<rparr> # post),
                   freeMemory := freeMemory s + sizeB b\<rparr>"
  using free_cases [OF assms(1), of a] assms(2) by auto

section \<open>The claims of the specification\<close>

text \<open>
  C1. After any sequence of initialize, allocate, free and free-by-owner calls on the
  initialized arena, whatever \<^verbatim>\<open>allocate\<close> has read through its stale reference, no call
  has left the vector's bounds, and the block list, which is in ascending address order,
  is a contiguous partition of the range from 0 to the capacity: the first block is at
  0, every block starts where the one before it ends, the last block ends at the
  capacity, and every size is positive.
\<close>

theorem partition_invariant:
  "\<exists>s. run ops fresh_arena = Some s \<and>
       sorted_wrt (<) (map address (memoryBlocks s)) \<and>
       contiguous_partition (unat DEFAULT_MEMORY_SIZE) (memoryBlocks s)"
proof -
  from reaches_total [of ops] obtain s where s: "reaches ops s" ..
  from reaches_tiled [OF s]
  have "chain 0 (memoryBlocks s) (unat DEFAULT_MEMORY_SIZE)" "memoryBlocks s \<noteq> []"
    by (simp_all add: tiled_def)
  from chain_sorted [OF this(1)] chain_contiguous_partition [OF this] s
  show ?thesis by (auto simp: reaches_def)
qed

theorem partition_invariant_witness:
  "\<forall>g. run [Allocate g 100 1, Initialize, Allocate g 100 1, Allocate g 200 2] fresh_arena =
        Some \<lparr>memoryBlocks = [mkBlock 0 100 True 1, mkBlock 100 200 False (- 1),
                               mkBlock 300 1048276 False (- 1)],
              capacity = 4, totalMemory = 1048576, freeMemory = 1048476 - sizeB g,
              isInitialized = True\<rparr> \<and>
       contiguous_partition (unat DEFAULT_MEMORY_SIZE)
         [mkBlock 0 100 True 1, mkBlock 100 200 False (- 1), mkBlock 300 1048276 False (- 1)]"
proof
  fix g
  have r: "run [Allocate g 100 1, Initialize, Allocate g 100 1, Allocate g 200 2] fresh_arena =
        Some \<lparr>memoryBlocks = [mkBlock 0 100 True 1, mkBlock 100 200 False (- 1),
                               mkBlock 300 1048276 False (- 1)],
              capacity = 4, totalMemory = 1048576, freeMemory = 1048476 - sizeB g,
              isInitialized = True\<rparr>"
    by code_simp
  from partition_invariant [of "[Allocate g 100 1, Initialize, Allocate g 100 1, Allocate g 200 2]"] r
  show "run [Allocate g 100 1, Initialize, Allocate g 100 1, Allocate g 200 2] fresh_arena =
        Some \<lparr>memoryBlocks = [mkBlock 0 100 True 1, mkBlock 100 200 False (- 1),
                               mkBlock 300 1048276 False (- 1)],
              capacity = 4, totalMemory = 1048576, freeMemory = 1048476 - sizeB g,
              isInitialized = True\<rparr> \<and>
       contiguous_partition (unat DEFAULT_MEMORY_SIZE)
         [mkBlock 0 100 True 1, mkBlock 100 200 False (- 1), mkBlock 300 1048276 False (- 1)]"
    by simp
qed

text \<open>
  C2, at the first allocation of the fresh arena. \<^verbatim>\<open>findFreeBlock\<close> selects the block
  at index 0, the first fit. Its split moves the one-element vector, so the value
  returned is the address read from the freed buffer, the block at address 0 stays free
  without an owner, and the next search for 100 bytes selects it again.
\<close>

theorem first_fit_block_stays_free:
  "findFreeBlock 100 (memoryBlocks fresh_arena) = 0 \<and>
   fst (the (allocate stale 100 1 fresh_arena)) = address stale \<and>
   memoryBlocks (snd (snd (the (allocate stale 100 1 fresh_arena)))) =
     [mkBlock 0 100 False (- 1), mkBlock 100 1048476 False (- 1)] \<and>
   findFreeBlock 100 (memoryBlocks (snd (snd (the (allocate stale 100 1 fresh_arena))))) = 0"
  by (simp add: first_allocate)
    (simp add: fresh_arena_eq findFreeBlock_def static_cast_int_def mkBlock_def)



text \<open>
  C4, as stated, fails in its last part: the value \<^verbatim>\<open>allocate\<close> returns does not tell
  a fragmented arena from a full one. The run below ends with free blocks of 100 bytes
  at 0 and of 1048376 bytes at 200 and a counter of 1048476, whatever the two moved
  allocations before the re-initializations have read. A request for 1048377 bytes ends
  at "No suitable memory block found" and a request for 1048477 bytes at "Not enough
  memory available"; both return 0 and leave the state as it was.
\<close>

theorem allocate_failures_same_value:
  "\<forall>g. run [Allocate g 100 1, Initialize, Allocate g 100 1, Allocate g 100 2, Initialize,
            Allocate g 100 1, Allocate g 100 2, Free 0] fresh_arena =
        Some \<lparr>memoryBlocks = [mkBlock 0 100 False (- 1), mkBlock 100 100 True 2,
                               mkBlock 200 1048376 False (- 1)],
              capacity = 4, totalMemory = 1048576, freeMemory = 1048476,
              isInitialized = True\<rparr> \<and>
       allocate g 1048377 9
         \<lparr>memoryBlocks = [mkBlock 0 100 False (- 1), mkBlock 100 100 True 2,
                          mkBlock 200 1048376 False (- 1)],
          capacity = 4, totalMemory = 1048576, freeMemory = 1048476, isInitialized = True\<rparr> =
       Some (0, [NoSuitableBlock],
         \<lparr>memoryBlocks = [mkBlock 0 100 False (- 1), mkBlock 100 100 True 2,
                          mkBlock 200 1048376 False (- 1)],
          capacity = 4, totalMemory = 1048576, freeMemory = 1048476, isInitialized = True\<rparr>) \<and>
       allocate g 1048477 9
         \<lparr>memoryBlocks = [mkBlock 0 100 False (- 1), mkBlock 100 100 True 2,
                          mkBlock 200 1048376 False (- 1)],
          capacity = 4, totalMemory = 1048576, freeMemory = 1048476, isInitialized = True\<rparr> =
       Some (0, [NotEnoughMemory],
         \<lparr>memoryBlocks = [mkBlock 0 100 False (- 1), mkBlock 100 100 True 2,
                          mkBlock 200 1048376 False (- 1)],
          capacity = 4, totalMemory = 1048576, freeMemory = 1048476, isInitialized = True\<rparr>)"
proof
  fix g
  let ?s = "\<lparr>memoryBlocks = [mkBlock 0 100 False (- 1), mkBlock 100 100 True 2,
                          mkBlock 200 1048376 False (- 1)],
          capacity = 4, totalMemory = 1048576, freeMemory = 1048476, isInitialized = True\<rparr>"
  have r: "run [Allocate g 100 1, Initialize, Allocate g 100 1, Allocate g 100 2, Initialize,
            Allocate g 100 1, Allocate g 100 2, Free 0] fresh_arena = Some ?s"
    by code_simp
  have a: "allocate g 1048377 9 ?s = Some (0, [NoSuitableBlock], ?s)"
    by code_simp
  have b: "allocate g 1048477 9 ?s = Some (0, [NotEnoughMemory], ?s)"
    by code_simp
  from r a b
  show "run [Allocate g 100 1, Initialize, Allocate g 100 1, Allocate g 100 2, Initialize,
            Allocate g 100 1, Allocate g 100 2, Free 0] fresh_arena = Some ?s \<and>
        allocate g 1048377 9 ?s = Some (0, [NoSuitableBlock], ?s) \<and>
        allocate g 1048477 9 ?s = Some (0, [NotEnoughMemory], ?s)"
    by simp
qed

text \<open>
  C4, amended. In a reachable state \<^verbatim>\<open>allocate(size, pid)\<close> ends at "Cannot allocate 0
  bytes" exactly when the size is 0; otherwise at "Not enough memory available" exactly
  when the size exceeds the free counter \<^verbatim>\<open>freeMemory\<close>; otherwise at "No suitable
  memory block found" exactly when no free block is large enough; otherwise it prints
  its "Allocated" line. The three failures differ in the line written to
  \<^verbatim>\<open>std::cerr\<close> only: each returns 0 and leaves the state unchanged.
\<close>

theorem allocate_failures:
  assumes "reaches ops s"
  shows "(sz = 0 \<longrightarrow> allocate stale sz p s = Some (0, [CannotAllocateZero], s)) \<and>
         (sz \<noteq> 0 \<and> freeMemory s < sz \<longrightarrow>
            allocate stale sz p s = Some (0, [NotEnoughMemory], s)) \<and>
         (sz \<noteq> 0 \<and> sz \<le> freeMemory s \<and>
          (\<forall>b \<in> set (memoryBlocks s). \<not> allocated b \<longrightarrow> sizeB b < sz) \<longrightarrow>
            allocate stale sz p s = Some (0, [NoSuitableBlock], s)) \<and>
         (sz \<noteq> 0 \<and> sz \<le> freeMemory s \<and>
          (\<exists>b \<in> set (memoryBlocks s). \<not> allocated b \<and> sz \<le> sizeB b) \<longrightarrow>
            (\<exists>a n s'. allocate stale sz p s = Some (a, [AllocatedLine n a p], s')))"
proof -
  note inv = reaches_tiled(1) [OF assms]
  have le: "sz \<le> freeMemory s \<longleftrightarrow> \<not> freeMemory s < sz" by auto
  have fit: "(\<not> allocated x \<longrightarrow> sizeB x < sz) \<longleftrightarrow> \<not> (\<not> allocated x \<and> sz \<le> sizeB x)" for x
    by auto
  have line: "\<exists>a n s'. after_allocate stale sz p pre b post s = (a, [AllocatedLine n a p], s')"
    for pre b post
    by (simp add: after_allocate_def)
  from allocate_cases [OF inv, of sz stale p] line
  consider "sz = 0" "allocate stale sz p s = Some (0, [CannotAllocateZero], s)"
    | "sz \<noteq> 0" "freeMemory s < sz" "allocate stale sz p s = Some (0, [NotEnoughMemory], s)"
    | "sz \<noteq> 0" "\<not> freeMemory s < sz"
      "\<forall>x \<in> set (memoryBlocks s). \<not> (\<not> allocated x \<and> sz \<le> sizeB x)"
      "allocate stale sz p s = Some (0, [NoSuitableBlock], s)"
    | "sz \<noteq> 0" "\<not> freeMemory s < sz"
      "\<exists>x \<in> set (memoryBlocks s). \<not> allocated x \<and> sz \<le> sizeB x"
      "\<exists>a n s'. allocate stale sz p s = Some (a, [AllocatedLine n a p], s')"
    by (elim disjE conjE exE) (simp, simp, simp, metis in_set_conv_decomp)
  then show ?thesis
  proof cases
    case 1
    then show ?thesis by simp
  next
    case 2
    then show ?thesis by (simp add: le)
  next
    case 3
    then show ?thesis by (auto simp: fit le)
  next
    case 4
    then show ?thesis by (auto simp: fit le)
  qed
qed

theorem allocate_failures_witness:
  "\<forall>g. reaches [Allocate g 100 1, Initialize, Allocate g 100 1, Allocate g 100 2, Initialize,
                Allocate g 100 1, Allocate g 100 2, Free 0]
         \<lparr>memoryBlocks = [mkBlock 0 100 False (- 1), mkBlock 100 100 True 2,
                          mkBlock 200 1048376 False (- 1)],
          capacity = 4, totalMemory = 1048576, freeMemory = 1048476, isInitialized = True\<rparr> \<and>
       allocate g 0 9
         \<lparr>memoryBlocks = [mkBlock 0 100 False (- 1), mkBlock 100 100 True 2,
                          mkBlock 200 1048376 False (- 1)],
          capacity = 4, totalMemory = 1048576, freeMemory = 1048476, isInitialized = True\<rparr> =
       Some (0, [CannotAllocateZero],
         \<lparr>memoryBlocks = [mkBlock 0 100 False (- 1), mkBlock 100 100 True 2,
                          mkBlock 200 1048376 False (- 1)],
          capacity = 4, totalMemory = 1048576, freeMemory = 1048476, isInitialized = True\<rparr>) \<and>
       allocate g 1048477 9
         \<lparr>memoryBlocks = [mkBlock 0 100 False (- 1), mkBlock 100 100 True 2,
                          mkBlock 200 1048376 False (- 1)],
          capacity = 4, totalMemory = 1048576, freeMemory = 1048476, isInitialized = True\<rparr> =
       Some (0, [NotEnoughMemory],
         \<lparr>memoryBlocks = [mkBlock 0 100 False (- 1), mkBlock 100 100 True 2,
                          mkBlock 200 1048376 False (- 1)],
          capacity = 4, totalMemory = 1048576, freeMemory = 1048476, isInitialized = True\<rparr>) \<and>
       allocate g 1048377 9
         \<lparr>memoryBlocks = [mkBlock 0 100 False (- 1), mkBlock 100 100 True 2,
                          mkBlock 200 1048376 False (- 1)],
          capacity = 4, totalMemory = 1048576, freeMemory = 1048476, isInitialized = True\<rparr> =
       Some (0, [NoSuitableBlock],
         \<lparr>memoryBlocks = [mkBlock 0 100 False (- 1), mkBlock 100 100 True 2,
                          mkBlock 200 1048376 False (- 1)],
          capacity = 4, totalMemory = 1048576, freeMemory = 1048476, isInitialized = True\<rparr>) \<and>
       (\<exists>a n s'. allocate g 100 9
         \<lparr>memoryBlocks = [mkBlock 0 100 False (- 1), mkBlock 100 100 True 2,
                          mkBlock 200 1048376 False (- 1)],
          capacity = 4, totalMemory = 1048576, freeMemory = 1048476, isInitialized = True\<rparr> =
         Some (a, [AllocatedLine n a 9], s'))"
proof
  fix g
  let ?bs = "[mkBlock 0 100 False (- 1), mkBlock 100 100 True 2,
              mkBlock 200 1048376 False (- 1)]"
  let ?s = "\<lparr>memoryBlocks = ?bs, capacity = 4, totalMemory = 1048576, freeMemory = 1048476,
            isInitialized = True\<rparr>"
  let ?ops = "[Allocate g 100 1, Initialize, Allocate g 100 1, Allocate g 100 2, Initialize,
               Allocate g 100 1, Allocate g 100 2, Free 0]"
  have "run ?ops fresh_arena = Some ?s"
    by code_simp
  then have r: "reaches ?ops ?s"
    by (simp add: reaches_def)
  have none: "\<forall>b \<in> set ?bs. \<not> allocated b \<longrightarrow> sizeB b < 1048377" by (simp add: mkBlock_def)
  have some: "\<exists>b \<in> set ?bs. \<not> allocated b \<and> 100 \<le> sizeB b" by (simp add: mkBlock_def)
  from allocate_failures [OF r, of 0 g 9]
  have z: "allocate g 0 9 ?s = Some (0, [CannotAllocateZero], ?s)"
    by simp
  from allocate_failures [OF r, of 1048477 g 9]
  have m: "allocate g 1048477 9 ?s = Some (0, [NotEnoughMemory], ?s)"
    by simp
  from allocate_failures [OF r, of 1048377 g 9] none
  have f: "allocate g 1048377 9 ?s = Some (0, [NoSuitableBlock], ?s)"
    by simp
  from allocate_failures [OF r, of 100 g 9] some
  have k: "\<exists>a n s'. allocate g 100 9 ?s = Some (a, [AllocatedLine n a 9], s')"
    by (simp add: mkBlock_def)
  from r z m f k
  show "reaches ?ops ?s \<and> allocate g 0 9 ?s = Some (0, [CannotAllocateZero], ?s) \<and>
        allocate g 1048477 9 ?s = Some (0, [NotEnoughMemory], ?s) \<and>
        allocate g 1048377 9 ?s = Some (0, [NoSuitableBlock], ?s) \<and>
        (\<exists>a n s'. allocate g 100 9 ?s = Some (a, [AllocatedLine n a 9], s'))"
    by simp
qed

text \<open>
  C5, at the first allocation of the fresh arena. The split moves the vector, so the
  block at 0 and the remainder at 100 are both free. \<^verbatim>\<open>free(0)\<close> finds the block at 0
  free, returns false before it reaches \<^verbatim>\<open>mergeBlocks\<close>, and leaves the two free
  neighbours as they are.
\<close>

theorem failed_free_leaves_free_neighbours:
  "free 0
     \<lparr>memoryBlocks = [mkBlock 0 100 False (- 1), mkBlock 100 1048476 False (- 1)],
      capacity = 2, totalMemory = 1048576, freeMemory = 1048576 - sizeB stale,
      isInitialized = True\<rparr> =
   Some (False, [AlreadyFree 0],
     \<lparr>memoryBlocks = [mkBlock 0 100 False (- 1), mkBlock 100 1048476 False (- 1)],
      capacity = 2, totalMemory = 1048576, freeMemory = 1048576 - sizeB stale,
      isInitialized = True\<rparr>) \<and>
   run [Allocate stale 100 1, Free 0] fresh_arena =
   Some \<lparr>memoryBlocks = [mkBlock 0 100 False (- 1), mkBlock 100 1048476 False (- 1)],
      capacity = 2, totalMemory = 1048576, freeMemory = 1048576 - sizeB stale,
      isInitialized = True\<rparr>"
proof -
  let ?s = "\<lparr>memoryBlocks = [mkBlock 0 100 False (- 1), mkBlock 100 1048476 False (- 1)],
      capacity = 2, totalMemory = 1048576, freeMemory = 1048576 - sizeB stale,
      isInitialized = True\<rparr>"
  have f: "free 0 ?s = Some (False, [AlreadyFree 0], ?s)"
    by (simp add: free_def findBlockByAddress_def static_cast_int_def index_of_int_def
        mkBlock_def Let_def)
  with first_allocate [of stale] show ?thesis by simp
qed

text \<open>
  C6, at the first allocation of the fresh arena. The split moves the vector, the block
  stays free, and the counter drops by the size read from the freed buffer: the
  statistics show \<open>1048576 - sizeB stale\<close> free bytes while the free blocks still add up
  to the whole arena.
\<close>

theorem counter_after_moved_split:
  "getMemoryStats (snd (snd (the (allocate stale 100 1 fresh_arena)))) =
   Inr \<lparr>stat_total = 1048576, stat_free = 1048576 - sizeB stale,
        stat_used = 1048576 - (1048576 - sizeB stale), stat_blocks = 2,
        stat_rows = [mkBlock 0 100 False (- 1), mkBlock 100 1048476 False (- 1)]\<rparr> \<and>
   free_total (memoryBlocks (snd (snd (the (allocate stale 100 1 fresh_arena))))) = 1048576"
  by (simp add: first_allocate getMemoryStats_def free_total_def mkBlock_def)

text \<open>
  C7, as stated, fails where coalescing absorbs the freed block into a free block in
  front of it: then no block starts at the address any more, and the second call ends
  at "No memory block found", not at "already free". The run below reaches such a state
  whatever its first, moved allocation has read.
\<close>

theorem second_free_not_found:
  "\<forall>g. run [Allocate g 100 1, Initialize, Allocate g 100 1, Allocate g 1048476 2, Free 0]
         fresh_arena =
        Some \<lparr>memoryBlocks = [mkBlock 0 100 False (- 1), mkBlock 100 1048476 True 2],
              capacity = 2, totalMemory = 1048576, freeMemory = 100, isInitialized = True\<rparr> \<and>
       free 100
         \<lparr>memoryBlocks = [mkBlock 0 100 False (- 1), mkBlock 100 1048476 True 2],
          capacity = 2, totalMemory = 1048576, freeMemory = 100, isInitialized = True\<rparr> =
       Some (True, [FreedLine 1048476 100],
         \<lparr>memoryBlocks = [mkBlock 0 1048576 False (- 1)],
          capacity = 2, totalMemory = 1048576, freeMemory = 1048576, isInitialized = True\<rparr>) \<and>
       free 100
         \<lparr>memoryBlocks = [mkBlock 0 1048576 False (- 1)],
          capacity = 2, totalMemory = 1048576, freeMemory = 1048576, isInitialized = True\<rparr> =
       Some (False, [NoBlockAt 100],
         \<lparr>memoryBlocks = [mkBlock 0 1048576 False (- 1)],
          capacity = 2, totalMemory = 1048576, freeMemory = 1048576, isInitialized = True\<rparr>)"
proof
  fix g
  let ?s1 = "\<lparr>memoryBlocks = [mkBlock 0 100 False (- 1), mkBlock 100 1048476 True 2],
          capacity = 2, totalMemory = 1048576, freeMemory = 100, isInitialized = True\<rparr>"
  let ?s2 = "\<lparr>memoryBlocks = [mkBlock 0 1048576 False (- 1)],
          capacity = 2, totalMemory = 1048576, freeMemory = 1048576, isInitialized = True\<rparr>"
  have r: "run [Allocate g 100 1, Initialize, Allocate g 100 1, Allocate g 1048476 2, Free 0]
             fresh_arena = Some ?s1"
    by code_simp
  have f1: "free 100 ?s1 = Some (True, [FreedLine 1048476 100], ?s2)"
    by code_simp
  have f2: "free 100 ?s2 = Some (False, [NoBlockAt 100], ?s2)"
    by code_simp
  from r f1 f2
  show "run [Allocate g 100 1, Initialize, Allocate g 100 1, Allocate g 1048476 2, Free 0]
          fresh_arena = Some ?s1 \<and>
        free 100 ?s1 = Some (True, [FreedLine 1048476 100], ?s2) \<and>
        free 100 ?s2 = Some (False, [NoBlockAt 100], ?s2)"
    by simp
qed

text \<open>
  C7, amended. In a reachable state, after \<^verbatim>\<open>free(a)\<close> has succeeded a second
  \<^verbatim>\<open>free(a)\<close> returns false and leaves the state unchanged. It ends at "already free"
  when a block still starts at \<open>a\<close>, and at "No memory block found" when coalescing has
  absorbed the freed block into the free block in front of it.
\<close>

theorem second_free_fails:
  assumes "reaches ops s" "free a s = Some (True, out, s')"
  shows "free a s' =
         Some (False,
               [if \<exists>b \<in> set (memoryBlocks s'). address b = a then AlreadyFree a
                else NoBlockAt a],
               s')"
proof -
  note inv = reaches_tiled(1) [OF assms(1)]
  from free_success_form [OF inv assms(2)] obtain pre b post where
    d: "memoryBlocks s = pre @ b # post" "address b = a" "allocated b"
    "s' = s\<lparr>memoryBlocks :=
              mergeBlocks_loop (pre @ b\<lparr>allocated := False, pid := - 1\<rparr> # post),
            freeMemory := freeMemory s + sizeB b\<rparr>"
    by blast
  from free_tiled [OF inv, of a] assms(2) have inv': "tiled s'" by simp
  from inv d(1) have ch: "chain 0 (pre @ b # post) (unat (totalMemory s))"
    by (simp add: tiled_def)
  have no_alloc: "address x \<noteq> a" if x: "x \<in> set (memoryBlocks s')" "allocated x" for x
  proof -
    from x d(4) mergeBlocks_loop_set [of x "pre @ b\<lparr>allocated := False, pid := - 1\<rparr> # post"]
    have "x \<in> set pre \<or> x \<in> set post" by auto
    with chain_pre_below [OF ch, of x] chain_post_above [OF ch, of x] d(2)
    show ?thesis by auto
  qed
  from free_cases [OF inv', of a]
  consider "\<forall>x \<in> set (memoryBlocks s'). address x \<noteq> a"
      "free a s' = Some (False, [NoBlockAt a], s')"
    | b' where "b' \<in> set (memoryBlocks s')" "address b' = a"
      "free a s' = Some (False, [AlreadyFree a], s')"
    | b' where "b' \<in> set (memoryBlocks s')" "address b' = a" "allocated b'"
    by fastforce
  then show ?thesis
  proof cases
    case 1
    then show ?thesis by auto
  next
    case 2
    then show ?thesis by auto
  next
    case 3
    with no_alloc [of b'] show ?thesis by simp
  qed
qed

theorem second_free_fails_witness:
  "\<forall>g. reaches [Allocate g 100 1, Initialize, Allocate g 100 1]
         \<lparr>memoryBlocks = [mkBlock 0 100 True 1, mkBlock 100 1048476 False (- 1)],
          capacity = 2, totalMemory = 1048576, freeMemory = 1048476, isInitialized = True\<rparr> \<and>
       free 0
         \<lparr>memoryBlocks = [mkBlock 0 100 True 1, mkBlock 100 1048476 False (- 1)],
          capacity = 2, totalMemory = 1048576, freeMemory = 1048476, isInitialized = True\<rparr> =
       Some (True, [FreedLine 100 0],
         \<lparr>memoryBlocks = [mkBlock 0 1048576 False (- 1)],
          capacity = 2, totalMemory = 1048576, freeMemory = 1048576, isInitialized = True\<rparr>) \<and>
       free 0
         \<lparr>memoryBlocks = [mkBlock 0 1048576 False (- 1)],
          capacity = 2, totalMemory = 1048576, freeMemory = 1048576, isInitialized = True\<rparr> =
       Some (False, [AlreadyFree 0],
         \<lparr>memoryBlocks = [mkBlock 0 1048576 False (- 1)],
          capacity = 2, totalMemory = 1048576, freeMemory = 1048576, isInitialized = True\<rparr>)"
proof
  fix g
  let ?s = "\<lparr>memoryBlocks = [mkBlock 0 100 True 1, mkBlock 100 1048476 False (- 1)],
          capacity = 2, totalMemory = 1048576, freeMemory = 1048476, isInitialized = True\<rparr>"
  let ?s' = "\<lparr>memoryBlocks = [mkBlock 0 1048576 False (- 1)],
          capacity = 2, totalMemory = 1048576, freeMemory = 1048576, isInitialized = True\<rparr>"
  have "run [Allocate g 100 1, Initialize, Allocate g 100 1] fresh_arena = Some ?s"
    by code_simp
  then have r: "reaches [Allocate g 100 1, Initialize, Allocate g 100 1] ?s"
    by (simp add: reaches_def)
  have f: "free 0 ?s = Some (True, [FreedLine 100 0], ?s')"
    by code_simp
  from second_free_fails [OF r f] r f
  show "reaches [Allocate g 100 1, Initialize, Allocate g 100 1] ?s \<and>
        free 0 ?s = Some (True, [FreedLine 100 0], ?s') \<and>
        free 0 ?s' = Some (False, [AlreadyFree 0], ?s')"
    by (simp add: mkBlock_def)
qed

text \<open>
  C8, at the first allocation of the fresh arena. The split moves the vector, so the
  block stays free, and \<^verbatim>\<open>free\<close> of the returned value fails whatever that value is:
  at 0 and at 100 it finds a free block, elsewhere no block. The split stays; the
  state before the allocation does not come back.
\<close>

theorem free_after_moved_allocate_fails:
  "fst (the (allocate stale 100 1 fresh_arena)) = address stale \<and>
   (\<exists>out. free (address stale) (snd (snd (the (allocate stale 100 1 fresh_arena)))) =
           Some (False, out, snd (snd (the (allocate stale 100 1 fresh_arena))))) \<and>
   memoryBlocks (snd (snd (the (allocate stale 100 1 fresh_arena)))) \<noteq>
   memoryBlocks fresh_arena"
proof -
  let ?s = "\<lparr>memoryBlocks = [mkBlock 0 100 False (- 1), mkBlock 100 1048476 False (- 1)],
      capacity = 2, totalMemory = 1048576, freeMemory = 1048576 - sizeB stale,
      isInitialized = True\<rparr>"
  have "\<exists>out. free (address stale) ?s = Some (False, out, ?s)"
    by (cases "address stale = 0"; cases "address stale = 100")
      (simp_all add: free_def findBlockByAddress_def static_cast_int_def index_of_int_def
        mkBlock_def Let_def)
  then show ?thesis
    by (simp add: first_allocate) (simp add: fresh_arena_eq)
qed

text \<open>
  C9, on the arena as the code sets it up (the constructor fixes 1048576 bytes; nothing
  sets 1024). Whatever the two allocations read, after \<^verbatim>\<open>allocate(100, 1)\<close> and
  \<^verbatim>\<open>allocate(200, 2)\<close> no block is allocated at 0 or at 100: \<^verbatim>\<open>free(0)\<close> and
  \<^verbatim>\<open>free(100)\<close> both return false at "already free", and nothing is merged.
\<close>

theorem scenario_frees_fail:
  "\<exists>s. run [Allocate g1 100 1, Allocate g2 200 2] fresh_arena = Some s \<and>
       free 0 s = Some (False, [AlreadyFree 0], s) \<and>
       free 100 s = Some (False, [AlreadyFree 100], s) \<and>
       1 < length (memoryBlocks s)"
proof -
  let ?s1 = "\<lparr>memoryBlocks = [mkBlock 0 100 False (- 1), mkBlock 100 1048476 False (- 1)],
      capacity = 2, totalMemory = 1048576, freeMemory = 1048576 - sizeB g1,
      isInitialized = True\<rparr>"
  let ?s2 = "\<lparr>memoryBlocks = [mkBlock 0 100 False (- 1), mkBlock 100 200 False (- 1),
                             mkBlock 300 1048276 False (- 1)],
      capacity = 4, totalMemory = 1048576, freeMemory = 1048576 - sizeB g1 - sizeB g2,
      isInitialized = True\<rparr>"
  have a2: "allocate g2 200 2 ?s1 = Some (0, [NotEnoughMemory], ?s1) \<or>
            allocate g2 200 2 ?s1 =
              Some (address g2, [AllocatedLine (sizeB g2) (address g2) 2], ?s2)"
    by (simp add: allocate_def findFreeBlock_def static_cast_int_def index_of_int_def
        splitBlock_def capacity_after_insert_def vector_grow_def mkBlock_def Let_def)
  have f1: "free 0 ?s1 = Some (False, [AlreadyFree 0], ?s1)"
    "free 100 ?s1 = Some (False, [AlreadyFree 100], ?s1)"
    by (simp_all add: free_def findBlockByAddress_def static_cast_int_def index_of_int_def
        mkBlock_def Let_def)
  have f2: "free 0 ?s2 = Some (False, [AlreadyFree 0], ?s2)"
    "free 100 ?s2 = Some (False, [AlreadyFree 100], ?s2)"
    by (simp_all add: free_def findBlockByAddress_def static_cast_int_def index_of_int_def
        mkBlock_def Let_def)
  from a2 show ?thesis
  proof
    assume "allocate g2 200 2 ?s1 = Some (0, [NotEnoughMemory], ?s1)"
    with first_allocate [of g1] f1 show ?thesis by simp
  next
    assume "allocate g2 200 2 ?s1 =
              Some (address g2, [AllocatedLine (sizeB g2) (address g2) 2], ?s2)"
    with first_allocate [of g1] f2 show ?thesis by simp
  qed
qed

text \<open>
  C10, at the first allocation of the fresh arena. For \<^verbatim>\<open>mem-alloc 100 1\<close> the split
  moves the vector: \<^verbatim>\<open>allocate\<close> returns the address read from the freed buffer, not
  the block's address 0, the block at 0 stays free, and \<^verbatim>\<open>handleCommand\<close> answers
  "Memory allocated at address ..." with that value unless it happens to be 0.
\<close>

theorem mem_alloc_reply:
  "handleCommand render stale ''mem-alloc'' [''100'', ''1''] fresh_arena =
   Some (if address stale \<noteq> 0 then ''Memory allocated at address '' @ to_string (address stale)
         else ''Failed to allocate memory'',
         [AllocatedLine (sizeB stale) (address stale) 1],
         \<lparr>memoryBlocks = [mkBlock 0 100 False (- 1), mkBlock 100 1048476 False (- 1)],
          capacity = 2, totalMemory = 1048576, freeMemory = 1048576 - sizeB stale,
          isInitialized = True\<rparr>)"
proof -
  have p1: "stoull ''100'' = Some 100"
    by (simp add: stoull_def scan_number_def isspace_def isdigit_def digits_value_def)
  have p2: "stoi ''1'' = Some 1"
    by (simp add: stoi_def scan_number_def isspace_def isdigit_def digits_value_def)
  have init: "isInitialized fresh_arena" by (simp add: fresh_arena_eq)
  from init p1 p2 first_allocate [of stale] show ?thesis
    by (simp add: handleCommand_def Let_def tolower_def)
qed

end
